theory Spec2Isabelle
  imports Complex_Main "HOL-Library.Word"
begin

section \<open>The collectd to InfluxDB proxy (proxy.go)\<close>

text \<open>
  A shallow embedding of \<^verbatim>\<open>processPacket\<close> and of the body of the ingestion loop of
  \<^verbatim>\<open>main\<close>. The global variables of the program that the two functions read
  (\<^verbatim>\<open>*normalize\<close>, \<^verbatim>\<open>types\<close>) are parameters, the one they write
  (\<^verbatim>\<open>beforeCache\<close>) is passed in and returned. The flag \<^verbatim>\<open>*normalize\<close> is the
  parameter \<open>normalize_flag\<close>. Log output is not part of the model.
\<close>

subsection \<open>float64\<close>

text \<open>
  Go's \<^verbatim>\<open>float64\<close>, idealised: a finite value is a rational number and arithmetic on
  finite values is exact (no rounding, no overflow to infinity, one zero). The two
  infinities and not-a-number are values of their own, and subtraction and division treat
  them as IEEE 754 does. Every divisor of the program is the conversion of an integer, so
  a zero divisor is the positive zero.
\<close>

datatype float64 = Finite rat | PosInf | NegInf | NaN

fun IsNaN :: "float64 \<Rightarrow> bool" where
  "IsNaN NaN = True"
| "IsNaN _ = False"

fun fsub :: "float64 \<Rightarrow> float64 \<Rightarrow> float64" where
  "fsub (Finite a) (Finite b) = Finite (a - b)"
| "fsub NaN _ = NaN"
| "fsub _ NaN = NaN"
| "fsub PosInf PosInf = NaN"
| "fsub NegInf NegInf = NaN"
| "fsub PosInf _ = PosInf"
| "fsub NegInf _ = NegInf"
| "fsub (Finite a) PosInf = NegInf"
| "fsub (Finite a) NegInf = PosInf"

fun fdiv :: "float64 \<Rightarrow> float64 \<Rightarrow> float64" where
  "fdiv (Finite a) (Finite b) =
     (if b = 0 then (if a = 0 then NaN else if 0 < a then PosInf else NegInf)
      else Finite (a / b))"
| "fdiv NaN _ = NaN"
| "fdiv _ NaN = NaN"
| "fdiv (Finite a) _ = Finite 0"
| "fdiv PosInf (Finite b) = (if 0 \<le> b then PosInf else NegInf)"
| "fdiv NegInf (Finite b) = (if 0 \<le> b then NegInf else PosInf)"
| "fdiv _ _ = NaN"

subsection \<open>int64\<close>

type_synonym int64 = "64 word"

text \<open>\<^verbatim>\<open>a / b\<close> on \<^verbatim>\<open>int64\<close>: the quotient truncated towards zero.\<close>

definition int64_quo :: "int64 \<Rightarrow> int64 \<Rightarrow> int64" where
  "int64_quo a b = word_of_int (sgn (sint a) * sgn (sint b) * (\<bar>sint a\<bar> div \<bar>sint b\<bar>))"

text \<open>The conversion \<^verbatim>\<open>float64(n)\<close> of an \<^verbatim>\<open>int64\<close>.\<close>

definition float64_of_int64 :: "int64 \<Rightarrow> float64" where
  "float64_of_int64 n = Finite (of_int (sint n))"

subsection \<open>Data\<close>

text \<open>The data-source kinds of collectd (\<^verbatim>\<open>collectd.TypeCounter\<close> and its siblings).\<close>

datatype dstype = TypeCounter | TypeGauge | TypeDerive | TypeAbsolute

text \<open>
  A decoded \<^verbatim>\<open>collectd.Packet\<close>, as the program reads it. \<open>Values\<close> holds one
  pair per value-source: \<^verbatim>\<open>values[i].Float64()\<close> and \<^verbatim>\<open>packet.DataTypes[i]\<close>;
  \<^verbatim>\<open>packet.ValueNames()\<close> has one entry per value-source too. \<open>TimeMs\<close> is
  \<^verbatim>\<open>packet.Time().UnixNano() / 1000000\<close>.
\<close>

record Packet =
  Hostname :: string
  Plugin :: string
  PluginInstance :: string
  Type :: string
  TypeInstance :: string
  Values :: "(float64 \<times> dstype) list"
  TimeMs :: int64

text \<open>
  \<^verbatim>\<open>Types\<close>, the result of \<^verbatim>\<open>ParseTypesDB\<close>: a map from a type name to its
  data-source names. \<open>None\<close> is the \<^verbatim>\<open>nil\<close> that \<^verbatim>\<open>types[packet.Type]\<close> gives.
\<close>

type_synonym Types = "string \<rightharpoonup> string list"

record CacheEntry =
  Timestamp :: int64
  Value :: float64

type_synonym Cache = "string \<rightharpoonup> CacheEntry"

text \<open>The values a row of \<^verbatim>\<open>Points\<close> (\<^verbatim>\<open>[]interface{}\<close>) holds.\<close>

datatype iface = I64 int64 | F64 float64 | Str string

record Series =
  Name :: string
  Columns :: "string list"
  Points :: "iface list list"

datatype error = IndexOutOfRange

subsection \<open>processPacket\<close>

text \<open>\<^verbatim>\<open>strings.Replace(s, old, new, -1)\<close> for a one-byte \<open>old\<close> and \<open>new\<close>.\<close>

fun strings_Replace :: "string \<Rightarrow> char \<Rightarrow> char \<Rightarrow> string" where
  "strings_Replace [] old new = []"
| "strings_Replace (c # cs) old new =
     (if c = old then new # strings_Replace cs old new else c # strings_Replace cs old new)"

definition hostName :: "Packet \<Rightarrow> string" where
  "hostName packet = strings_Replace (Hostname packet) (CHR ''.'') (CHR ''_'')"

definition pluginName :: "Packet \<Rightarrow> string" where
  "pluginName packet =
     (if PluginInstance packet \<noteq> [] then Plugin packet @ ''-'' @ PluginInstance packet
      else Plugin packet)"

text \<open>\<^verbatim>\<open>t[i]\<close> panics when \<open>i\<close> is not an index of \<open>t\<close>.\<close>

definition typeName :: "Types \<Rightarrow> Packet \<Rightarrow> nat \<Rightarrow> error + string" where
  "typeName types packet i =
     (if TypeInstance packet \<noteq> [] then Inr (Type packet @ ''-'' @ TypeInstance packet)
      else (case types (Type packet) of
              Some t \<Rightarrow> (if i < length t then Inr (Type packet @ ''-'' @ t ! i)
                         else Inl IndexOutOfRange)
            | None \<Rightarrow> Inr (Type packet)))"

definition cacheKey :: "Packet \<Rightarrow> string \<Rightarrow> string" where
  "cacheKey packet tn = hostName packet @ ''.'' @ pluginName packet @ ''.'' @ tn"

definition seriesName :: "Packet \<Rightarrow> string \<Rightarrow> string" where
  "seriesName packet tn = pluginName packet @ ''.'' @ tn"

text \<open>
  The condition of line 181, \<^verbatim>\<open>*normalize && dataType == TypeCounter || dataType == TypeDerive\<close>:
  in Go \<^verbatim>\<open>&&\<close> binds tighter than \<^verbatim>\<open>||\<close>.
\<close>

definition normalizing :: "bool \<Rightarrow> dstype \<Rightarrow> bool" where
  "normalizing normalize_flag dataType \<longleftrightarrow>
     (normalize_flag \<and> dataType = TypeCounter) \<or> dataType = TypeDerive"

text \<open>
  Lines 178 to 198: the result is \<^verbatim>\<open>(normalizedValue, readyToSend)\<close> and the cache
  after the block. \<open>before_entry\<close> is the source's \<^verbatim>\<open>before\<close>.
\<close>

definition normalizeBlock ::
  "bool \<Rightarrow> dstype \<Rightarrow> string \<Rightarrow> int64 \<Rightarrow> float64 \<Rightarrow> Cache \<Rightarrow> (float64 \<times> bool) \<times> Cache" where
  "normalizeBlock normalize_flag dataType key timestamp v beforeCache =
     (if normalizing normalize_flag dataType then
        ((case beforeCache key of
            Some before_entry \<Rightarrow>
              (if IsNaN (Value before_entry) then (v, False)
               else if 0 <s timestamp - Timestamp before_entry then
                 (fdiv (fsub v (Value before_entry))
                    (float64_of_int64 (int64_quo (timestamp - Timestamp before_entry) 1000)), True)
               else (fsub v (Value before_entry), True))
          | None \<Rightarrow> (v, False)),
         beforeCache(key \<mapsto> \<lparr>Timestamp = timestamp, Value = v\<rparr>))
      else ((v, True), beforeCache))"

definition mkSeries :: "string \<Rightarrow> int64 \<Rightarrow> float64 \<Rightarrow> string \<Rightarrow> Series" where
  "mkSeries nm timestamp normalizedValue host =
     \<lparr>Name = nm, Columns = [''time'', ''value'', ''host''],
      Points = [[I64 timestamp, F64 normalizedValue, Str host]]\<rparr>"

text \<open>
  One round of the loop of \<^verbatim>\<open>processPacket\<close>, for the value-source index \<open>i\<close>: the
  cache after the round and the series appended to \<^verbatim>\<open>seriesGroup\<close>, if any. \<open>Inl\<close> is
  a run-time panic.
\<close>

definition processValue ::
  "bool \<Rightarrow> Types \<Rightarrow> Packet \<Rightarrow> nat \<Rightarrow> Cache \<Rightarrow> error + (Cache \<times> Series option)" where
  "processValue normalize_flag types packet i beforeCache =
     (if types (Type packet) = None \<and> TypeInstance packet = [] then Inr (beforeCache, None)
      else (case typeName types packet i of
              Inl e \<Rightarrow> Inl e
            | Inr tn \<Rightarrow>
                (if i < length (Values packet) then
                   (case normalizeBlock normalize_flag (snd (Values packet ! i)) (cacheKey packet tn)
                           (TimeMs packet) (fst (Values packet ! i)) beforeCache of
                      ((normalizedValue, readyToSend), cache') \<Rightarrow>
                        Inr (cache',
                             if readyToSend
                             then Some (mkSeries (seriesName packet tn) (TimeMs packet)
                                          normalizedValue (hostName packet))
                             else None))
                 else Inl IndexOutOfRange)))"

fun processLoop ::
  "bool \<Rightarrow> Types \<Rightarrow> Packet \<Rightarrow> nat list \<Rightarrow> Cache \<Rightarrow> Series list \<Rightarrow> error + (Cache \<times> Series list)" where
  "processLoop normalize_flag types packet [] beforeCache seriesGroup = Inr (beforeCache, seriesGroup)"
| "processLoop normalize_flag types packet (i # rest) beforeCache seriesGroup =
     (case processValue normalize_flag types packet i beforeCache of
        Inl e \<Rightarrow> Inl e
      | Inr (cache', out) \<Rightarrow>
          processLoop normalize_flag types packet rest cache'
            (case out of Some series \<Rightarrow> seriesGroup @ [series] | None \<Rightarrow> seriesGroup))"

definition processPacket ::
  "bool \<Rightarrow> Types \<Rightarrow> Packet \<Rightarrow> Cache \<Rightarrow> error + (Cache \<times> Series list)" where
  "processPacket normalize_flag types packet beforeCache =
     processLoop normalize_flag types packet [0 ..< length (Values packet)] beforeCache []"

subsection \<open>The ingestion loop of main\<close>

text \<open>Durations and clock readings are in nanoseconds.\<close>

definition influxWriteInterval :: int where
  "influxWriteInterval = 1000000000"

definition influxWriteLimit :: nat where
  "influxWriteLimit = 50"

record State =
  cache :: Cache
  timer :: int
  seriesGroup :: "Series list"

text \<open>
  One round of \<^verbatim>\<open>for packet := range c\<close>. \<open>now1\<close> is the clock that
  \<^verbatim>\<open>time.Since(timer)\<close> reads, \<open>now2\<close> the one \<^verbatim>\<open>timer = time.Now()\<close> reads. The
  second component of the result is the batch given to \<^verbatim>\<open>go backendWriter\<close>, if any.
\<close>

definition mainStep ::
  "bool \<Rightarrow> Types \<Rightarrow> State \<Rightarrow> Packet \<Rightarrow> int \<Rightarrow> int \<Rightarrow> error + (State \<times> Series list option)" where
  "mainStep normalize_flag types st packet now1 now2 =
     (case processPacket normalize_flag types packet (cache st) of
        Inl e \<Rightarrow> Inl e
      | Inr (cache', new) \<Rightarrow>
          (let sg = seriesGroup st @ new in
           if now1 - timer st < influxWriteInterval \<and> length sg < influxWriteLimit
           then Inr (\<lparr>cache = cache', timer = timer st, seriesGroup = sg\<rparr>, None)
           else if 0 < length sg
             then Inr (\<lparr>cache = cache', timer = now2, seriesGroup = []\<rparr>, Some sg)
             else Inr (\<lparr>cache = cache', timer = now2, seriesGroup = sg\<rparr>, None)))"

section \<open>Example inputs\<close>

text \<open>
  A catalog with the one-source type \<^verbatim>\<open>cpu\<close>, and packets of host \<^verbatim>\<open>h1.lan\<close>,
  plugin \<^verbatim>\<open>cpu\<close>, plugin instance \<^verbatim>\<open>0\<close> and no type instance.
\<close>

definition ex_types :: Types where
  "ex_types = [''cpu'' \<mapsto> [''value'']]"

definition ex_packet :: "string \<Rightarrow> (float64 \<times> dstype) list \<Rightarrow> int64 \<Rightarrow> Packet" where
  "ex_packet ty vs ts =
     \<lparr>Hostname = ''h1.lan'', Plugin = ''cpu'', PluginInstance = ''0'', Type = ty,
      TypeInstance = [], Values = vs, TimeMs = ts\<rparr>"

definition ex_key :: string where
  "ex_key = ''h1_lan.cpu-0.cpu-value''"

section \<open>Properties\<close>

subsection \<open>The rounds of the loop\<close>

lemmas ex_defs = ex_types_def ex_packet_def ex_key_def
lemmas model_defs = processValue_def typeName_def normalizeBlock_def normalizing_def
  cacheKey_def hostName_def pluginName_def seriesName_def int64_quo_def float64_of_int64_def
  word_sless_alt

lemma strings_Replace_map:
  "strings_Replace s a b = map (\<lambda>c. if c = a then b else c) s"
  by (induction s) simp_all

lemma strings_Replace_props:
  "length (strings_Replace s a b) = length s"
  "a \<noteq> b \<Longrightarrow> a \<notin> set (strings_Replace s a b)"
  by (induction s) auto

lemma processValue_skip:
  "types (Type p) = None \<Longrightarrow> TypeInstance p = [] \<Longrightarrow> processValue nf types p i c = Inr (c, None)"
  by (simp add: processValue_def)

lemma processValue_run:
  assumes "\<not> (types (Type p) = None \<and> TypeInstance p = [])"
    and "typeName types p i = Inr tn" and "i < length (Values p)"
    and "normalizeBlock nf (snd (Values p ! i)) (cacheKey p tn) (TimeMs p) (fst (Values p ! i)) c
          = ((nv, ready), c')"
  shows "processValue nf types p i c =
    Inr (c', if ready then Some (mkSeries (seriesName p tn) (TimeMs p) nv (hostName p)) else None)"
  using assms by (auto simp: processValue_def)

lemma processValue_InrE:
  assumes "processValue nf types p i c = Inr (c', out)"
  obtains (skip) "types (Type p) = None" "TypeInstance p = []" "c' = c" "out = None"
  | (run) tn nv ready where "\<not> (types (Type p) = None \<and> TypeInstance p = [])"
      "typeName types p i = Inr tn" "i < length (Values p)"
      "normalizeBlock nf (snd (Values p ! i)) (cacheKey p tn) (TimeMs p) (fst (Values p ! i)) c
          = ((nv, ready), c')"
      "out = (if ready then Some (mkSeries (seriesName p tn) (TimeMs p) nv (hostName p)) else None)"
  using assms
  by (auto simp: processValue_def split: if_splits sum.splits prod.splits)

lemma processLoop_skip:
  "types (Type p) = None \<Longrightarrow> TypeInstance p = [] \<Longrightarrow>
   processLoop nf types p is c sg = Inr (c, sg)"
  by (induction "is") (simp_all add: processValue_skip)

text \<open>
  What \<^verbatim>\<open>processPacket\<close> returns is what its rounds appended: every series of the
  result is the series of a round at an index of the sample.
\<close>

lemma processLoop_emitted:
  assumes "processLoop nf types p is c sg = Inr (c', sg')"
  shows "\<exists>ems. sg' = sg @ ems \<and>
           (\<forall>s \<in> set ems. \<exists>i \<in> set is. \<exists>c0 c1.
               processValue nf types p i c0 = Inr (c1, Some s))"
  using assms
proof (induction "is" arbitrary: c sg)
  case Nil
  then show ?case by simp
next
  case (Cons i rest)
  from Cons.prems obtain c1 out where
    step: "processValue nf types p i c = Inr (c1, out)" and
    loop: "processLoop nf types p rest c1
             (case out of Some series \<Rightarrow> sg @ [series] | None \<Rightarrow> sg) = Inr (c', sg')"
    by (auto split: sum.splits)
  from Cons.IH [OF loop] obtain ems where
    ems: "sg' = (case out of Some series \<Rightarrow> sg @ [series] | None \<Rightarrow> sg) @ ems"
      "\<forall>s \<in> set ems. \<exists>j \<in> set rest. \<exists>c0 c1.
          processValue nf types p j c0 = Inr (c1, Some s)"
    by blast
  show ?case
  proof (cases out)
    case None
    with ems show ?thesis by auto
  next
    case (Some series)
    with ems(1) have "sg' = sg @ (series # ems)" by simp
    moreover have "\<forall>s \<in> set (series # ems). \<exists>j \<in> set (i # rest). \<exists>c0 c1.
          processValue nf types p j c0 = Inr (c1, Some s)"
      using ems(2) step Some by auto
    ultimately show ?thesis by blast
  qed
qed

lemma processPacket_emitted:
  assumes "processPacket nf types p c = Inr (c', sg)" and "s \<in> set sg"
  shows "\<exists>i < length (Values p). \<exists>c0 c1. processValue nf types p i c0 = Inr (c1, Some s)"
proof -
  from processLoop_emitted [OF assms(1) [unfolded processPacket_def]] assms(2)
  obtain i c0 c1 where "i \<in> set [0 ..< length (Values p)]"
    "processValue nf types p i c0 = Inr (c1, Some s)"
    by auto
  then show ?thesis by auto
qed

subsection \<open>The normalization block\<close>




lemma normalizeBlock_raw:
  "\<not> normalizing nf k \<Longrightarrow> normalizeBlock nf k key ts v c = ((v, True), c)"
  by (simp add: normalizeBlock_def)

lemma normalizeBlock_frame:
  "normalizeBlock nf k key ts v c = (r, c') \<Longrightarrow> k' \<noteq> key \<Longrightarrow> c' k' = c k'"
  by (auto simp: normalizeBlock_def split: if_splits)


text \<open>
  The elapsed time is the \<^verbatim>\<open>int64\<close> difference \<^verbatim>\<open>timestamp-before.Timestamp\<close>, read as
  a signed number. Timestamps are milliseconds of \<^verbatim>\<open>UnixNano()\<close>, far inside the range
  where the difference does not wrap.
\<close>

lemma int64_sub_exact:
  fixes a b :: int64
  assumes "- (2 ^ 62) \<le> sint a" "sint a < 2 ^ 62" "- (2 ^ 62) \<le> sint b" "sint b < 2 ^ 62"
  shows "sint (a - b) = sint a - sint b"
proof -
  have "sint (a - b) = signed_take_bit 63 (sint a - sint b)"
    by (simp add: sint_word_ariths)
  also have "\<dots> = sint a - sint b"
    using assms by (intro signed_take_bit_int_eq_self) simp_all
  finally show ?thesis .
qed

lemma int64_quo_1000:
  fixes d :: int64
  assumes "0 < sint d"
  shows "sint (int64_quo d 1000) = sint d div 1000"
proof -
  have up: "sint d < 2 ^ 63" using sint_lt [of d] by simp
  have "sint d div 1000 \<le> sint d div 1"
    using assms by (intro zdiv_mono2) simp_all
  then have q: "0 \<le> sint d div 1000" "sint d div 1000 \<le> sint d"
    using assms by (simp_all add: pos_imp_zdiv_nonneg_iff)
  have "int64_quo d 1000 = word_of_int (sint d div 1000)"
    using assms by (simp add: int64_quo_def)
  then have "sint (int64_quo d 1000) = signed_take_bit 63 (sint d div 1000)"
    by (simp add: sint_sbintrunc')
  also have "\<dots> = sint d div 1000"
    using q up by (intro signed_take_bit_int_eq_self) simp_all
  finally show ?thesis .
qed


lemma normalizeBlock_rate:
  assumes "normalizing nf k" and "c key = Some e" and "\<not> IsNaN (Value e)"
    and "0 < sint (ts - Timestamp e)"
  shows "normalizeBlock nf k key ts v c =
    ((fdiv (fsub v (Value e)) (Finite (of_int (sint (ts - Timestamp e) div 1000))), True),
     c(key \<mapsto> \<lparr>Timestamp = ts, Value = v\<rparr>))"
  using assms
  by (simp add: normalizeBlock_def word_sless_alt float64_of_int64_def int64_quo_1000)

subsection \<open>Unknown types\<close>

text \<open>
  Claim C6. A value-source of a sample whose type name is not in the Type Catalog and whose
  type-instance is empty is discarded: the round emits no Point and leaves the cache as it
  was, for every index; so the whole sample emits nothing and changes nothing. (The round
  writes one line to the log, which is not program state.)
\<close>

theorem unknown_type_discarded:
  assumes "types (Type packet) = None" and "TypeInstance packet = []"
  shows "processValue nf types packet i beforeCache = Inr (beforeCache, None)
       \<and> processPacket nf types packet beforeCache = Inr (beforeCache, [])"
  using assms by (simp add: processValue_skip processLoop_skip processPacket_def)

theorem unknown_type_discarded_witness:
  "ex_types (Type (ex_packet ''mystery'' [(Finite 1, TypeGauge)] 0)) = None
   \<and> TypeInstance (ex_packet ''mystery'' [(Finite 1, TypeGauge)] 0) = []
   \<and> processValue True ex_types (ex_packet ''mystery'' [(Finite 1, TypeGauge)] 0) 0 Map.empty
       = Inr (Map.empty, None)
   \<and> processPacket True ex_types (ex_packet ''mystery'' [(Finite 1, TypeGauge)] 0) Map.empty
       = Inr (Map.empty, [])"
  using unknown_type_discarded [of ex_types "ex_packet ''mystery'' [(Finite 1, TypeGauge)] 0"
      True 0 Map.empty]
  by (simp add: ex_defs)

subsection \<open>The label lookup\<close>

lemma typeName_panics_iff:
  "(typeName types p i = Inl IndexOutOfRange) \<longleftrightarrow>
     (TypeInstance p = [] \<and> (\<exists>t. types (Type p) = Some t \<and> length t \<le> i))"
  by (auto simp: typeName_def split: option.splits)

lemma processValue_panics_iff:
  assumes "i < length (Values p)"
  shows "(processValue nf types p i c = Inl IndexOutOfRange) \<longleftrightarrow>
     (TypeInstance p = [] \<and> (\<exists>t. types (Type p) = Some t \<and> length t \<le> i))"
proof (cases "typeName types p i")
  case (Inl e)
  then have bad: "TypeInstance p = [] \<and> (\<exists>t. types (Type p) = Some t \<and> length t \<le> i)"
    using typeName_panics_iff [of types p i] by (cases e) simp
  with Inl show ?thesis by (cases e) (auto simp: processValue_def)
next
  case (Inr tn)
  then have "\<not> (TypeInstance p = [] \<and> (\<exists>t. types (Type p) = Some t \<and> length t \<le> i))"
    using typeName_panics_iff [of types p i] by simp
  with Inr assms show ?thesis
    by (auto simp: processValue_def split: prod.splits)
qed

lemma processLoop_panics_iff:
  assumes "\<forall>i \<in> set is. i < length (Values p)"
  shows "(processLoop nf types p is c sg = Inl IndexOutOfRange) \<longleftrightarrow>
     (TypeInstance p = [] \<and> (\<exists>t. types (Type p) = Some t \<and> (\<exists>i \<in> set is. length t \<le> i)))"
  using assms
proof (induction "is" arbitrary: c sg)
  case Nil
  then show ?case by simp
next
  case (Cons i rest)
  have i: "i < length (Values p)" using Cons.prems by simp
  show ?case
  proof (cases "processValue nf types p i c")
    case (Inl e)
    then have "processValue nf types p i c = Inl IndexOutOfRange" by (cases e) simp
    with Inl show ?thesis
      using processValue_panics_iff [OF i, of nf types c] by (cases e) auto
  next
    case (Inr r)
    then have no: "\<not> (TypeInstance p = [] \<and> (\<exists>t. types (Type p) = Some t \<and> length t \<le> i))"
      using processValue_panics_iff [OF i, of nf types c] by simp
    obtain c' out where r: "r = (c', out)" by (cases r)
    have "(processLoop nf types p (i # rest) c sg = Inl IndexOutOfRange) \<longleftrightarrow>
        (processLoop nf types p rest c'
           (case out of Some series \<Rightarrow> sg @ [series] | None \<Rightarrow> sg) = Inl IndexOutOfRange)"
      using Inr r by simp
    also have "\<dots> \<longleftrightarrow> (TypeInstance p = [] \<and>
        (\<exists>t. types (Type p) = Some t \<and> (\<exists>i \<in> set rest. length t \<le> i)))"
      using Cons.IH Cons.prems by simp
    also have "\<dots> \<longleftrightarrow> (TypeInstance p = [] \<and>
        (\<exists>t. types (Type p) = Some t \<and> (\<exists>j \<in> set (i # rest). length t \<le> j)))"
      using no by auto
    finally show ?thesis .
  qed
qed

text \<open>
  Claim C9. The label lookup \<^verbatim>\<open>t[i]\<close> is not guarded: processing a sample panics with
  an index out of range exactly when its type is known, its type-instance is empty and it
  carries more value-sources than the type declares data-source names. Under the
  precondition that every index is smaller than the length of the TypeDefinition,
  processing returns.
\<close>

theorem label_index_unguarded:
  "(processPacket nf types packet beforeCache = Inl IndexOutOfRange) \<longleftrightarrow>
     (TypeInstance packet = [] \<and>
      (\<exists>t. types (Type packet) = Some t \<and> length t < length (Values packet)))"
proof -
  have "(\<exists>i \<in> set [0 ..< length (Values packet)]. length t \<le> i) \<longleftrightarrow>
      length t < length (Values packet)" for t :: "string list"
    by auto
  then show ?thesis
    unfolding processPacket_def
    using processLoop_panics_iff [of "[0 ..< length (Values packet)]" packet nf types beforeCache "[]"]
    by simp
qed

theorem label_index_unguarded_witness:
  "processPacket True ex_types (ex_packet ''cpu'' [(Finite 1, TypeGauge), (Finite 2, TypeGauge)] 0)
      Map.empty = Inl IndexOutOfRange
   \<and> processPacket True ex_types (ex_packet ''cpu'' [(Finite 1, TypeGauge)] 0) Map.empty
      \<noteq> Inl IndexOutOfRange"
  using
    label_index_unguarded [of True ex_types
      "ex_packet ''cpu'' [(Finite 1, TypeGauge), (Finite 2, TypeGauge)] 0" Map.empty]
    label_index_unguarded [of True ex_types "ex_packet ''cpu'' [(Finite 1, TypeGauge)] 0" Map.empty]
  by (simp add: ex_defs)

subsection \<open>Series name and host label\<close>

text \<open>
  Claim C8. The series emitted at index \<open>i\<close> is named plugin, then \<^verbatim>\<open>-\<close> and the plugin
  instance if there is one, then \<^verbatim>\<open>.\<close>, the type, \<^verbatim>\<open>-\<close> and the label: the type-instance
  of the sample if it is not empty, otherwise the \<open>i\<close>-th data-source name of the type,
  which is then known and has such a name.
\<close>

theorem series_name_format:
  assumes "processValue nf types packet i beforeCache = Inr (cache', Some series)"
    and "pl = (if PluginInstance packet \<noteq> [] then Plugin packet @ ''-'' @ PluginInstance packet
               else Plugin packet)"
  shows "(TypeInstance packet \<noteq> [] \<and>
            Name series = pl @ ''.'' @ Type packet @ ''-'' @ TypeInstance packet)
       \<or> (TypeInstance packet = [] \<and>
            (\<exists>t. types (Type packet) = Some t \<and> i < length t \<and>
                 Name series = pl @ ''.'' @ Type packet @ ''-'' @ t ! i))"
  using assms(1)
proof (cases rule: processValue_InrE)
  case skip
  then show ?thesis by simp
next
  case (run tn nv ready)
  from run(5) have nm: "Name series = pluginName packet @ ''.'' @ tn"
    by (auto simp: mkSeries_def seriesName_def split: if_splits)
  have pl: "pluginName packet = pl" by (simp add: pluginName_def assms(2))
  show ?thesis
  proof (cases "TypeInstance packet = []")
    case True
    with run(1) obtain t where t: "types (Type packet) = Some t" by auto
    with True run(2) have "i < length t \<and> tn = Type packet @ ''-'' @ t ! i"
      by (auto simp: typeName_def split: if_splits)
    with True t nm pl show ?thesis by simp
  next
    case False
    with run(2) have "tn = Type packet @ ''-'' @ TypeInstance packet"
      by (auto simp: typeName_def)
    with False nm pl show ?thesis by simp
  qed
qed

theorem series_name_format_witness:
  "processValue True ex_types (ex_packet ''cpu'' [(Finite 42, TypeGauge)] 7) 0 Map.empty
     = Inr (Map.empty, Some (mkSeries ''cpu-0.cpu-value'' 7 (Finite 42) ''h1_lan''))
   \<and> Name (mkSeries ''cpu-0.cpu-value'' 7 (Finite 42) ''h1_lan'') = ''cpu-0.cpu-value''"
proof -
  let ?p = "ex_packet ''cpu'' [(Finite 42, TypeGauge)] 7"
  have run: "processValue True ex_types ?p 0 Map.empty
     = Inr (Map.empty, Some (mkSeries ''cpu-0.cpu-value'' 7 (Finite 42) ''h1_lan''))"
    by (simp add: ex_defs model_defs)
  have pl: "''cpu-0'' = (if PluginInstance ?p \<noteq> [] then Plugin ?p @ ''-'' @ PluginInstance ?p
               else Plugin ?p)"
    by (simp add: ex_defs)
  show ?thesis
    using series_name_format [OF run pl] run by (simp add: ex_defs)
qed

text \<open>
  Claim C10. The host that a Point carries, and the host at the front of the SeriesKey
  under which the round writes the cache, is the hostname of the sample with every
  \<^verbatim>\<open>.\<close> replaced by \<^verbatim>\<open>_\<close>; no \<^verbatim>\<open>.\<close> is left in it.
\<close>

theorem host_label_sanitized:
  assumes "processValue nf types packet i beforeCache = Inr (cache', out)"
    and "h = map (\<lambda>c. if c = CHR ''.'' then CHR ''_'' else c) (Hostname packet)"
  shows "(\<forall>series. out = Some series \<longrightarrow>
            (\<exists>v. Points series = [[I64 (TimeMs packet), F64 v, Str h]]))
       \<and> (\<forall>k. cache' k \<noteq> beforeCache k \<longrightarrow>
            (\<exists>tn. typeName types packet i = Inr tn \<and>
                  k = h @ ''.'' @ seriesName packet tn))
       \<and> CHR ''.'' \<notin> set h"
proof -
  have h: "hostName packet = h"
    by (simp add: hostName_def strings_Replace_map assms(2))
  have dot: "CHR ''.'' \<notin> set h"
    unfolding h [symmetric] hostName_def by (rule strings_Replace_props(2)) simp
  from assms(1) show ?thesis
  proof (cases rule: processValue_InrE)
    case skip
    then show ?thesis using dot by simp
  next
    case (run tn nv ready)
    have "\<exists>v. Points series = [[I64 (TimeMs packet), F64 v, Str h]]"
      if "out = Some series" for series
      using that run(5) h by (auto simp: mkSeries_def split: if_splits)
    moreover have "\<exists>tn. typeName types packet i = Inr tn \<and> k = h @ ''.'' @ seriesName packet tn"
      if "cache' k \<noteq> beforeCache k" for k
    proof -
      have "k = cacheKey packet tn"
        using normalizeBlock_frame [OF run(4), of k] that by blast
      then show ?thesis using run(2) h by (auto simp: cacheKey_def seriesName_def)
    qed
    ultimately show ?thesis using dot by blast
  qed
qed

theorem host_label_sanitized_witness:
  "processValue True ex_types (ex_packet ''cpu'' [(Finite 150, TypeCounter)] 1000) 0
       [ex_key \<mapsto> \<lparr>Timestamp = 0, Value = Finite 100\<rparr>]
     = Inr ([ex_key \<mapsto> \<lparr>Timestamp = 1000, Value = Finite 150\<rparr>],
            Some (mkSeries ''cpu-0.cpu-value'' 1000 (Finite 50) ''h1_lan''))
   \<and> Points (mkSeries ''cpu-0.cpu-value'' 1000 (Finite 50) ''h1_lan'')
       = [[I64 1000, F64 (Finite 50), Str ''h1_lan'']]
   \<and> ex_key = ''h1_lan'' @ ''.'' @ ''cpu-0.cpu-value''"
proof -
  let ?p = "ex_packet ''cpu'' [(Finite 150, TypeCounter)] 1000"
  have run: "processValue True ex_types ?p 0 [ex_key \<mapsto> \<lparr>Timestamp = 0, Value = Finite 100\<rparr>]
     = Inr ([ex_key \<mapsto> \<lparr>Timestamp = 1000, Value = Finite 150\<rparr>],
            Some (mkSeries ''cpu-0.cpu-value'' 1000 (Finite 50) ''h1_lan''))"
    by (simp add: ex_defs model_defs)
  have h: "''h1_lan'' = map (\<lambda>c. if c = CHR ''.'' then CHR ''_'' else c) (Hostname ?p)"
    by (simp add: ex_defs)
  show ?thesis
    using host_label_sanitized [OF run h] run by (simp add: ex_defs mkSeries_def)
qed

subsection \<open>The cache\<close>





subsection \<open>Which value-sources are normalized\<close>

text \<open>
  Where the condition of line 181 does not hold (GAUGE and ABSOLUTE, and COUNTER when
  \<^verbatim>\<open>*normalize\<close> is not set) the Point carries the raw value and the cache is not touched.
\<close>

lemma raw_value_when_not_normalizing:
  assumes "\<not> (types (Type packet) = None \<and> TypeInstance packet = [])"
    and "typeName types packet i = Inr tn"
    and "i < length (Values packet)"
    and "\<not> normalizing nf (snd (Values packet ! i))"
  shows "processValue nf types packet i beforeCache =
    Inr (beforeCache, Some (mkSeries (seriesName packet tn) (TimeMs packet)
                              (fst (Values packet ! i)) (hostName packet)))"
proof -
  have "normalizeBlock nf (snd (Values packet ! i)) (cacheKey packet tn) (TimeMs packet)
      (fst (Values packet ! i)) beforeCache = ((fst (Values packet ! i), True), beforeCache)"
    using assms(4) by (rule normalizeBlock_raw)
  from processValue_run [OF assms(1-3) this] show ?thesis by simp
qed

text \<open>
  Claim C1 says that the normalization path is taken exactly when normalization is enabled
  and the kind is COUNTER or DERIVE. The code takes it for DERIVE also when normalization is
  disabled: the first DERIVE observation of a series then emits no Point and writes the
  cache, and the second emits the rate instead of the raw value 150.
\<close>

theorem derive_normalized_when_disabled:
  "processValue False ex_types (ex_packet ''cpu'' [(Finite 100, TypeDerive)] 0) 0 Map.empty
     = Inr ([ex_key \<mapsto> \<lparr>Timestamp = 0, Value = Finite 100\<rparr>], None)
   \<and> processValue False ex_types (ex_packet ''cpu'' [(Finite 150, TypeDerive)] 1000) 0
       [ex_key \<mapsto> \<lparr>Timestamp = 0, Value = Finite 100\<rparr>]
     = Inr ([ex_key \<mapsto> \<lparr>Timestamp = 1000, Value = Finite 150\<rparr>],
            Some (mkSeries ''cpu-0.cpu-value'' 1000 (Finite 50) ''h1_lan''))"
  by (simp add: ex_defs model_defs)

subsection \<open>The first observation of a series\<close>




subsection \<open>The normalized value\<close>




text \<open>
  For a positive elapsed time the divisor is the conversion of the \<^emph>\<open>integer\<close> quotient of
  the milliseconds by 1000, so the value is the rate per second only when the elapsed time
  is a whole number of seconds.
\<close>

lemma positive_elapsed_rate:
  assumes "\<not> (types (Type packet) = None \<and> TypeInstance packet = [])"
    and "typeName types packet i = Inr tn"
    and "i < length (Values packet)"
    and "normalizing nf (snd (Values packet ! i))"
    and "beforeCache (cacheKey packet tn) = Some e"
    and "\<not> IsNaN (Value e)"
    and "0 < sint (TimeMs packet - Timestamp e)"
  shows "processValue nf types packet i beforeCache =
    Inr (beforeCache(cacheKey packet tn \<mapsto>
           \<lparr>Timestamp = TimeMs packet, Value = fst (Values packet ! i)\<rparr>),
         Some (mkSeries (seriesName packet tn) (TimeMs packet)
                 (fdiv (fsub (fst (Values packet ! i)) (Value e))
                    (Finite (of_int (sint (TimeMs packet - Timestamp e) div 1000))))
                 (hostName packet)))"
proof -
  have "normalizeBlock nf (snd (Values packet ! i)) (cacheKey packet tn) (TimeMs packet)
      (fst (Values packet ! i)) beforeCache =
    ((fdiv (fsub (fst (Values packet ! i)) (Value e))
        (Finite (of_int (sint (TimeMs packet - Timestamp e) div 1000))), True),
     beforeCache(cacheKey packet tn \<mapsto>
       \<lparr>Timestamp = TimeMs packet, Value = fst (Values packet ! i)\<rparr>))"
    using assms(4-7) by (rule normalizeBlock_rate)
  from processValue_run [OF assms(1-3) this] show ?thesis by simp
qed

lemma whole_seconds_exact_rate:
  assumes "sint d = 1000 * n" and "0 < n"
  shows "fdiv (fsub (Finite a) (Finite b)) (Finite (of_int (sint d div 1000)))
       = Finite ((a - b) / (of_int (sint d) / 1000))"
  using assms by simp

text \<open>
  Claim C2 says that the value is the exact rate per second for every positive elapsed
  time. After 500 ms the code divides the difference 50 by \<^verbatim>\<open>float64(0)\<close> and emits
  plus infinity, where the rate is 100; after 1500 ms it divides by \<^verbatim>\<open>float64(1)\<close> and
  emits 50, where the rate is 100/3.
\<close>

theorem rate_divides_by_whole_seconds:
  "processValue True ex_types (ex_packet ''cpu'' [(Finite 150, TypeCounter)] 500) 0
       [ex_key \<mapsto> \<lparr>Timestamp = 0, Value = Finite 100\<rparr>]
     = Inr ([ex_key \<mapsto> \<lparr>Timestamp = 500, Value = Finite 150\<rparr>],
            Some (mkSeries ''cpu-0.cpu-value'' 500 PosInf ''h1_lan''))
   \<and> processValue True ex_types (ex_packet ''cpu'' [(Finite 150, TypeCounter)] 1500) 0
       [ex_key \<mapsto> \<lparr>Timestamp = 0, Value = Finite 100\<rparr>]
     = Inr ([ex_key \<mapsto> \<lparr>Timestamp = 1500, Value = Finite 150\<rparr>],
            Some (mkSeries ''cpu-0.cpu-value'' 1500 (Finite 50) ''h1_lan''))
   \<and> fdiv (fsub (Finite 150) (Finite 100)) (fdiv (Finite 500) (Finite 1000)) = Finite 100
   \<and> fdiv (fsub (Finite 150) (Finite 100)) (fdiv (Finite 1500) (Finite 1000)) = Finite (100 / 3)"
  by (simp add: ex_defs model_defs)

subsection \<open>Batching\<close>

text \<open>
  Claim C4. After a sample is processed the loop flushes exactly when the time since the
  last reset of the timer is at least the flush interval (one second) or the batch holds
  at least 50 series. On a flush a batch that is not empty is the argument of the
  \<^verbatim>\<open>go backendWriter\<close> statement and the loop goes on with an empty batch; the timer is
  reset whether or not a batch was handed over. Without a flush the batch and the timer
  stay. The writer runs on its own; the model records only the batch it is given.
\<close>

theorem flush_rule:
  assumes "processPacket nf types packet (cache st) = Inr (cache', new)"
    and "sg = seriesGroup st @ new"
    and "flush \<longleftrightarrow> influxWriteInterval \<le> now1 - timer st \<or> influxWriteLimit \<le> length sg"
  shows "mainStep nf types st packet now1 now2 =
           Inr (\<lparr>cache = cache',
                 timer = (if flush then now2 else timer st),
                 seriesGroup = (if flush then [] else sg)\<rparr>,
                if flush \<and> sg \<noteq> [] then Some sg else None)
       \<and> influxWriteInterval = 1000000000 \<and> influxWriteLimit = 50"
  using assms
  by (auto simp: mainStep_def Let_def influxWriteInterval_def influxWriteLimit_def)

theorem flush_rule_witness:
  "mainStep True ex_types
      \<lparr>cache = Map.empty, timer = 0,
       seriesGroup = replicate 49 (mkSeries ''cpu-0.cpu-value'' 7 (Finite 42) ''h1_lan'')\<rparr>
      (ex_packet ''cpu'' [(Finite 42, TypeGauge)] 7) 200000000 200000001
    = Inr (\<lparr>cache = Map.empty, timer = 200000001, seriesGroup = []\<rparr>,
           Some (replicate 49 (mkSeries ''cpu-0.cpu-value'' 7 (Finite 42) ''h1_lan'')
                 @ [mkSeries ''cpu-0.cpu-value'' 7 (Finite 42) ''h1_lan'']))
   \<and> mainStep True ex_types \<lparr>cache = Map.empty, timer = 0, seriesGroup = []\<rparr>
      (ex_packet ''mystery'' [(Finite 42, TypeGauge)] 7) 1000000000 1000000001
    = Inr (\<lparr>cache = Map.empty, timer = 1000000001, seriesGroup = []\<rparr>, None)
   \<and> mainStep True ex_types \<lparr>cache = Map.empty, timer = 0, seriesGroup = []\<rparr>
      (ex_packet ''cpu'' [(Finite 42, TypeGauge)] 7) 999999999 1000000001
    = Inr (\<lparr>cache = Map.empty, timer = 0,
            seriesGroup = [mkSeries ''cpu-0.cpu-value'' 7 (Finite 42) ''h1_lan'']\<rparr>, None)"
proof -
  let ?s = "mkSeries ''cpu-0.cpu-value'' 7 (Finite 42) ''h1_lan''"
  let ?p = "ex_packet ''cpu'' [(Finite 42, TypeGauge)] 7"
  let ?q = "ex_packet ''mystery'' [(Finite 42, TypeGauge)] 7"
  have v: "processValue True ex_types ?p 0 Map.empty = Inr (Map.empty, Some ?s)"
    by (simp add: ex_defs model_defs)
  have "[0 ..< length (Values ?p)] = [0]" by (simp add: ex_defs)
  then have p: "processPacket True ex_types ?p Map.empty = Inr (Map.empty, [?s])"
    by (simp add: processPacket_def v)
  have q: "processPacket True ex_types ?q Map.empty = Inr (Map.empty, [])"
    unfolding processPacket_def by (rule processLoop_skip) (simp_all add: ex_defs)
  have a: "True \<longleftrightarrow> influxWriteInterval \<le> 200000000 - 0 \<or>
      influxWriteLimit \<le> length (replicate 49 ?s @ [?s])"
    by (simp add: influxWriteLimit_def)
  have b: "True \<longleftrightarrow> influxWriteInterval \<le> 1000000000 - 0 \<or>
      influxWriteLimit \<le> length ([] @ ([] :: Series list))"
    by (simp add: influxWriteInterval_def)
  have c: "False \<longleftrightarrow> influxWriteInterval \<le> 999999999 - 0 \<or>
      influxWriteLimit \<le> length ([] @ [?s])"
    by (simp add: influxWriteInterval_def influxWriteLimit_def)
  show ?thesis
    using
      flush_rule [of True ex_types ?p "\<lparr>cache = Map.empty, timer = 0, seriesGroup = replicate 49 ?s\<rparr>"
        Map.empty "[?s]" "replicate 49 ?s @ [?s]" True 200000000 200000001]
      flush_rule [of True ex_types ?q "\<lparr>cache = Map.empty, timer = 0, seriesGroup = []\<rparr>"
        Map.empty "[]" "[] @ []" True 1000000000 1000000001]
      flush_rule [of True ex_types ?p "\<lparr>cache = Map.empty, timer = 0, seriesGroup = []\<rparr>"
        Map.empty "[?s]" "[] @ [?s]" False 999999999 1000000001]
      p q a b c
    by simp
qed

end
